theory Spec2Isabelle
  imports Main "HOL-Library.AList"
begin

section \<open>Python values\<close>

text \<open>
  The exceptions the modelled code can raise.  A function that can raise returns the
  exception as a value; a method that mutates its object and can raise returns the
  pair of the exception (\<open>None\<close> when it returned normally) and the object as the
  call left it, since a Python exception does not undo earlier assignments.
\<close>

datatype py_error =
  IndexError | ValueError | TypeError | KeyError | AttributeError
  | IntegrityError | DoesNotExist

text \<open>Python's \<open>xs[a:b]\<close> for arbitrary integers: a negative bound counts from the
  end, and both bounds are clamped to the list.\<close>

definition clamp_index :: "int \<Rightarrow> int \<Rightarrow> int" where
  "clamp_index n i = (if i < 0 then max (i + n) 0 else min i n)"

definition py_slice :: "'a list \<Rightarrow> int \<Rightarrow> int \<Rightarrow> 'a list" where
  "py_slice xs a b =
     (let n = int (length xs); lo = clamp_index n a; hi = clamp_index n b
      in take (nat (hi - lo)) (drop (nat lo) xs))"

text \<open>\<open>xs[i]\<close> for an index that is never negative: out of range raises.\<close>

definition py_get :: "'a list \<Rightarrow> nat \<Rightarrow> py_error + 'a" where
  "py_get xs i = (if i < length xs then Inr (xs ! i) else Inl IndexError)"

text \<open>\<open>xs.insert(i, x)\<close> for \<open>i \<ge> 0\<close>: an index past the end appends.\<close>

definition list_insert :: "'a list \<Rightarrow> nat \<Rightarrow> 'a \<Rightarrow> 'a list" where
  "list_insert xs i x = take i xs @ x # drop i xs"

text \<open>\<open>del xs[a:b]\<close> for \<open>a, b \<ge> 0\<close>: nothing is removed when \<open>b \<le> a\<close>.\<close>

definition del_slice :: "'a list \<Rightarrow> nat \<Rightarrow> nat \<Rightarrow> 'a list" where
  "del_slice xs a b = take a xs @ drop (max a b) xs"

text \<open>JSON scalars, and a \<open>dict\<close> with string keys as an association list in
  insertion order.\<close>

datatype jval = JBool bool | JInt int | JStr string

type_synonym attrs = "(string \<times> jval) list"


section \<open>The piece table (\<open>editor/models/piece_table.py\<close>)\<close>

text \<open>The dataclass \<open>Piece\<close>.  Its field \<open>length\<close> is \<open>plen\<close> here, the name
  \<open>length\<close> being the list function's.\<close>

record piece =
  buffer_type :: string
  start :: int
  plen :: int
  line_start :: bool

text \<open>\<open>Piece.split\<close>.\<close>

definition split :: "piece \<Rightarrow> int \<Rightarrow> py_error + (piece \<times> piece)" where
  "split p offset =
     (if offset \<le> 0 \<or> offset \<ge> plen p then Inl ValueError
      else Inr (\<lparr>buffer_type = buffer_type p, start = start p, plen = offset,
                  line_start = line_start p\<rparr>,
                \<lparr>buffer_type = buffer_type p, start = start p + offset,
                  plen = plen p - offset, line_start = False\<rparr>))"

text \<open>The dataclasses \<open>StyleRange\<close> and \<open>LineMarker\<close> of this module; the fields are
  prefixed since both classes have a \<open>piece_index\<close>.\<close>

record style_range =
  s_piece_index :: int
  s_start_offset :: int
  s_length :: int
  s_attributes :: attrs

record line_marker =
  l_piece_index :: int
  l_offset :: int
  l_type :: string
  l_properties :: attrs

record piece_table =
  original_buffer :: string
  add_buffer :: string
  pieces :: "piece list"
  styles :: "style_range list"
  lines :: "line_marker list"

text \<open>\<open>PieceTable.__init__\<close>.\<close>

definition empty_table :: piece_table where
  "empty_table = \<lparr>original_buffer = [], add_buffer = [], pieces = [], styles = [],
                   lines = []\<rparr>"

text \<open>\<open>_find_piece_at_position\<close>: the loop carries the index and \<open>curr_pos\<close>; falling
  out of the loop returns \<open>(len(self.pieces), 0)\<close>.\<close>

fun find_from :: "nat \<Rightarrow> int \<Rightarrow> piece list \<Rightarrow> int \<Rightarrow> nat \<times> int" where
  "find_from i curr_pos [] position = (i, 0)"
| "find_from i curr_pos (p # ps) position =
     (if curr_pos \<le> position \<and> position < curr_pos + plen p
      then (i, position - curr_pos)
      else find_from (Suc i) (curr_pos + plen p) ps position)"

definition find_piece_at_position :: "piece_table \<Rightarrow> int \<Rightarrow> nat \<times> int" where
  "find_piece_at_position t position = find_from 0 0 (pieces t) position"

text \<open>\<open>_update_markers\<close>: the offset of every style range and line marker whose
  piece index is greater than \<open>piece_index\<close> moves by \<open>delta\<close>.\<close>

definition update_markers :: "piece_table \<Rightarrow> nat \<Rightarrow> int \<Rightarrow> piece_table" where
  "update_markers t piece_index delta =
     t\<lparr>styles := map (\<lambda>s. if s_piece_index s > int piece_index
                            then s\<lparr>s_start_offset := s_start_offset s + delta\<rparr> else s)
                     (styles t),
       lines := map (\<lambda>m. if l_piece_index m > int piece_index
                           then m\<lparr>l_offset := l_offset m + delta\<rparr> else m)
                    (lines t)\<rparr>"

text \<open>\<open>insert\<close>.  \<open>if not text: return\<close> comes first; the add buffer is extended before
  the piece list is touched.\<close>

definition insert :: "piece_table \<Rightarrow> int \<Rightarrow> string \<Rightarrow> py_error option \<times> piece_table" where
  "insert t position text =
     (if text = [] then (None, t)
      else
        let (piece_index, offset) = find_piece_at_position t position;
            add_buffer_pos = int (length (add_buffer t));
            t1 = t\<lparr>add_buffer := add_buffer t @ text\<rparr>;
            new_piece = \<lparr>buffer_type = ''add'', start = add_buffer_pos,
                         plen = int (length text), line_start = False\<rparr>
        in if offset > 0 then
             (case py_get (pieces t1) piece_index of
                Inl e \<Rightarrow> (Some e, t1)
              | Inr curr_piece \<Rightarrow>
                  (case split curr_piece offset of
                     Inl e \<Rightarrow> (Some e, t1)
                   | Inr (first, second) \<Rightarrow>
                       (None,
                        update_markers
                          (t1\<lparr>pieces :=
                                list_insert
                                  (list_insert ((pieces t1)[piece_index := first])
                                     (piece_index + 1) new_piece)
                                  (piece_index + 2) second\<rparr>)
                          piece_index (int (length text)))))
           else
             (None,
              update_markers
                (t1\<lparr>pieces := list_insert (pieces t1) piece_index new_piece\<rparr>)
                piece_index (int (length text))))"

text \<open>\<open>delete\<close>.  The start piece is replaced before the end piece is looked at, so an
  exception raised while handling the end piece leaves the truncated start piece in
  the table.\<close>

definition delete :: "piece_table \<Rightarrow> int \<Rightarrow> int \<Rightarrow> py_error option \<times> piece_table" where
  "delete t position len =
     (if len \<le> 0 then (None, t)
      else
        let (start_piece_index, start_offset) = find_piece_at_position t position;
            (end_piece_index, end_offset) = find_piece_at_position t (position + len)
        in case (if start_offset > 0 then
                   (case py_get (pieces t) start_piece_index of
                      Inl e \<Rightarrow> Inl (e, t)
                    | Inr curr_piece \<Rightarrow>
                        (case split curr_piece start_offset of
                           Inl e \<Rightarrow> Inl (e, t)
                         | Inr (first, _) \<Rightarrow>
                             Inr (t\<lparr>pieces := (pieces t)[start_piece_index := first]\<rparr>,
                                  start_piece_index + 1)))
                 else Inr (t, start_piece_index)) of
             Inl (e, t') \<Rightarrow> (Some e, t')
           | Inr (t1, start_piece_index) \<Rightarrow>
               (case py_get (pieces t1) end_piece_index of
                  Inl e \<Rightarrow> (Some e, t1)
                | Inr end_piece \<Rightarrow>
                    (case (if end_offset < plen end_piece then
                             (case split end_piece end_offset of
                                Inl e \<Rightarrow> Inl e
                              | Inr (_, second) \<Rightarrow>
                                  Inr (t1\<lparr>pieces := (pieces t1)[end_piece_index := second]\<rparr>,
                                       end_piece_index))
                           else Inr (t1, end_piece_index + 1)) of
                       Inl e \<Rightarrow> (Some e, t1)
                     | Inr (t2, end_piece_index) \<Rightarrow>
                         (None,
                          update_markers
                            (t2\<lparr>pieces :=
                                  del_slice (pieces t2) start_piece_index end_piece_index\<rparr>)
                            start_piece_index (- len)))))"

text \<open>\<open>get_text\<close>: every buffer type other than \<open>'original'\<close> reads the add buffer.\<close>

definition buffer_of :: "piece_table \<Rightarrow> piece \<Rightarrow> string" where
  "buffer_of t p = (if buffer_type p = ''original'' then original_buffer t else add_buffer t)"

definition get_text :: "piece_table \<Rightarrow> string" where
  "get_text t =
     concat (map (\<lambda>p. py_slice (buffer_of t p) (start p) (start p + plen p)) (pieces t))"


section \<open>Invariant and reachable tables\<close>

text \<open>The invariant of \<open>spec.md\<close> section 4.A for one piece: it is not empty and its
  slice \<open>[start, start + length)\<close> lies inside the buffer it reads.\<close>

definition piece_ok :: "piece_table \<Rightarrow> piece \<Rightarrow> bool" where
  "piece_ok t p \<longleftrightarrow>
     0 < plen p \<and> 0 \<le> start p \<and> start p + plen p \<le> int (length (buffer_of t p))"

definition pieces_ok :: "piece_table \<Rightarrow> piece list \<Rightarrow> bool" where
  "pieces_ok t qs \<longleftrightarrow> (\<forall>p \<in> set qs. piece_ok t p)"

definition invariant :: "piece_table \<Rightarrow> bool" where
  "invariant t \<longleftrightarrow> (\<forall>p \<in> set (pieces t). piece_ok t p)"

text \<open>The tables a program can reach: the empty table, and the table left by any call
  of \<open>insert\<close> or \<open>delete\<close> on a reachable table, whatever the arguments and whether
  the call returned or raised.  Sequences of valid calls are among these.\<close>

inductive reachable :: "piece_table \<Rightarrow> bool" where
  init: "reachable empty_table"
| ins: "reachable t \<Longrightarrow> insert t position text = (r, t') \<Longrightarrow> reachable t'"
| del: "reachable t \<Longrightarrow> delete t position len = (r, t') \<Longrightarrow> reachable t'"

text \<open>The slice a piece contributes to \<open>get_text\<close>, and the text of a list of pieces.\<close>

definition piece_text :: "piece_table \<Rightarrow> piece \<Rightarrow> string" where
  "piece_text t p = py_slice (buffer_of t p) (start p) (start p + plen p)"

definition text_of_pieces :: "piece_table \<Rightarrow> piece list \<Rightarrow> string" where
  "text_of_pieces t qs = concat (map (piece_text t) qs)"


section \<open>The formatting manager (\<open>editor/models/formatting.py\<close>)\<close>

text \<open>The dataclasses \<open>StyleRange\<close>, \<open>LineMarker\<close> and \<open>BlockDescriptor\<close> of this module
  and the three lists of \<open>FormattingManager\<close>.\<close>

record fm_style_range =
  pieceIndex :: int
  offsetInPiece :: int
  fm_length :: int
  priority :: int
  fm_styles :: attrs

record fm_line_marker =
  lm_pieceIndex :: int
  lm_offsetInPiece :: int
  lm_type :: string
  lm_properties :: attrs

record block_descriptor =
  startPieceIndex :: int
  startOffset :: int
  endPieceIndex :: int
  endOffset :: int
  b_type :: string
  b_properties :: attrs

record formatting_manager =
  fm_style_list :: "fm_style_range list"
  fm_line_list :: "fm_line_marker list"
  fm_block_list :: "block_descriptor list"

text \<open>\<open>FormattingManager.update_positions\<close>; the two \<open>if\<close>s on a block run one after
  the other.\<close>

definition update_positions ::
    "formatting_manager \<Rightarrow> int \<Rightarrow> int \<Rightarrow> int \<Rightarrow> formatting_manager" where
  "update_positions fm piece_index offset delta =
     \<lparr>fm_style_list =
        map (\<lambda>s. if pieceIndex s = piece_index \<and> offsetInPiece s \<ge> offset
                  then s\<lparr>offsetInPiece := offsetInPiece s + delta\<rparr> else s)
            (fm_style_list fm),
      fm_line_list =
        map (\<lambda>l. if lm_pieceIndex l = piece_index \<and> lm_offsetInPiece l \<ge> offset
                  then l\<lparr>lm_offsetInPiece := lm_offsetInPiece l + delta\<rparr> else l)
            (fm_line_list fm),
      fm_block_list =
        map (\<lambda>b. let b1 = (if startPieceIndex b = piece_index \<and> startOffset b \<ge> offset
                             then b\<lparr>startOffset := startOffset b + delta\<rparr> else b)
                  in if endPieceIndex b1 = piece_index \<and> endOffset b1 \<ge> offset
                     then b1\<lparr>endOffset := endOffset b1 + delta\<rparr> else b1)
            (fm_block_list fm)\<rparr>"


section \<open>Properties of the piece table\<close>

subsection \<open>The invariant is kept by every edit\<close>

lemma find_from_found:
  "find_from i c ps pos = (j, off) \<Longrightarrow> 0 < off \<Longrightarrow>
     i \<le> j \<and> j - i < length ps \<and> off < plen (ps ! (j - i))"
proof (induction ps arbitrary: i c)
  case Nil
  then show ?case by simp
next
  case (Cons p ps)
  show ?case
  proof (cases "c \<le> pos \<and> pos < c + plen p")
    case True
    with Cons.prems show ?thesis by auto
  next
    case False
    with Cons.prems have "find_from (Suc i) (c + plen p) ps pos = (j, off)" by simp
    from Cons.IH [OF this Cons.prems(2)]
    have "Suc i \<le> j" "j - Suc i < length ps" "off < plen (ps ! (j - Suc i))" by auto
    then show ?thesis by (auto simp: nth_Cons' Suc_diff_le)
  qed
qed

lemma find_piece_found:
  assumes "find_piece_at_position t pos = (j, off)" "0 < off"
  shows "j < length (pieces t) \<and> off < plen (pieces t ! j)"
  using find_from_found [of 0 0 "pieces t" pos j off] assms
  by (simp add: find_piece_at_position_def)

lemma find_from_offset_nonneg: "find_from i c ps pos = (j, off) \<Longrightarrow> 0 \<le> off"
  by (induction ps arbitrary: i c) (auto split: if_splits)

lemma piece_ok_grow:
  "piece_ok t p \<Longrightarrow> original_buffer t' = original_buffer t \<Longrightarrow>
     add_buffer t' = add_buffer t @ x \<Longrightarrow> piece_ok t' p"
  by (auto simp: piece_ok_def buffer_of_def)

lemma piece_ok_same:
  "original_buffer t' = original_buffer t \<Longrightarrow> add_buffer t' = add_buffer t \<Longrightarrow>
     piece_ok t' p = piece_ok t p"
  by (simp add: piece_ok_def buffer_of_def)

lemma split_ok:
  assumes "split p off = Inr (a, b)" "piece_ok t p"
  shows "piece_ok t a \<and> piece_ok t b"
  using assms by (auto simp: split_def piece_ok_def buffer_of_def split: if_splits)

lemma set_list_insert [simp]: "set (list_insert xs i x) = Set.insert x (set xs)"
proof -
  have "set (take i xs) \<union> set (drop i xs) = set xs"
    by (metis append_take_drop_id set_append)
  then show ?thesis by (auto simp: list_insert_def)
qed

lemma set_del_slice: "set (del_slice xs a b) \<subseteq> set xs"
  by (auto simp: del_slice_def dest: in_set_takeD in_set_dropD)

lemma update_markers_fields [simp]:
  "pieces (update_markers t i d) = pieces t"
  "original_buffer (update_markers t i d) = original_buffer t"
  "add_buffer (update_markers t i d) = add_buffer t"
  by (simp_all add: update_markers_def)

lemma invariant_update_markers [simp]:
  "invariant (update_markers t i d) = invariant t"
  by (simp add: invariant_def piece_ok_def buffer_of_def)

lemma invariantI_subset:
  assumes "\<And>p. p \<in> set (pieces t') \<Longrightarrow> piece_ok t' p"
  shows "invariant t'"
  using assms by (simp add: invariant_def)

lemma insert_invariant:
  assumes "invariant t" "insert t position text = (r, t')"
  shows "invariant t'"
proof (cases "text = []")
  case True
  with assms show ?thesis by (simp add: insert_def)
next
  case False
  obtain j off where f: "find_piece_at_position t position = (j, off)"
    by (cases "find_piece_at_position t position")
  define t1 where "t1 = t\<lparr>add_buffer := add_buffer t @ text\<rparr>"
  define new_piece where "new_piece = \<lparr>buffer_type = ''add'', start = int (length (add_buffer t)),
                         plen = int (length text), line_start = False\<rparr>"
  have old: "piece_ok t1 p" if "p \<in> set (pieces t)" for p
    using that assms(1) piece_ok_grow [of t p t1 "text"] by (simp add: invariant_def t1_def)
  have new: "piece_ok t1 new_piece"
    using False by (simp add: piece_ok_def new_piece_def t1_def buffer_of_def)
  have p1: "pieces t1 = pieces t" by (simp add: t1_def)
  show ?thesis
  proof (cases "0 < off")
    case True
    from find_piece_found [OF f True] have j: "j < length (pieces t)" "off < plen (pieces t ! j)"
      by auto
    then obtain a b where s: "split (pieces t ! j) off = Inr (a, b)"
      using True by (auto simp: split_def)
    have ab: "piece_ok t1 a" "piece_ok t1 b"
      using split_ok [OF s old] j by auto
    define t2 where "t2 = t1\<lparr>pieces := list_insert (list_insert ((pieces t1)[j := a])
                                     (j + 1) new_piece) (j + 2) b\<rparr>"
    have t': "t' = update_markers t2 j (int (length text))"
      using assms(2) False f True j s
      by (simp add: insert_def t1_def t2_def new_piece_def py_get_def)
    have upd: "piece_ok t1 p" if "p \<in> set ((pieces t)[j := a])" for p
      using that old ab set_update_subset_insert [of "pieces t" j a] by auto
    have "piece_ok t2 p" if "p \<in> set (pieces t2)" for p
    proof -
      have "piece_ok t2 p = piece_ok t1 p" by (simp add: piece_ok_def buffer_of_def t2_def)
      moreover have "p = b \<or> p = new_piece \<or> p \<in> set ((pieces t)[j := a])"
        using that by (simp add: t2_def p1)
      ultimately show ?thesis using ab new upd by auto
    qed
    then have "invariant t2" by (simp add: invariant_def)
    then show ?thesis by (simp add: t')
  next
    case False
    define t2 where "t2 = t1\<lparr>pieces := list_insert (pieces t1) j new_piece\<rparr>"
    have t': "t' = update_markers t2 j (int (length text))"
      using assms(2) \<open>text \<noteq> []\<close> f False
      by (simp add: insert_def t1_def t2_def new_piece_def)
    have "piece_ok t2 p" if "p \<in> set (pieces t2)" for p
    proof -
      have "piece_ok t2 p = piece_ok t1 p" by (simp add: piece_ok_def buffer_of_def t2_def)
      moreover have "p = new_piece \<or> p \<in> set (pieces t)"
        using that by (simp add: t2_def p1)
      ultimately show ?thesis using new old by auto
    qed
    then have "invariant t2" by (simp add: invariant_def)
    then show ?thesis by (simp add: t')
  qed
qed

lemma invariant_pieces_ok: "invariant t = pieces_ok t (pieces t)"
  by (simp add: invariant_def pieces_ok_def)

lemma pieces_ok_frame [simp]:
  "pieces_ok (t\<lparr>pieces := xs\<rparr>) qs = pieces_ok t qs"
  "pieces_ok (update_markers t i d) qs = pieces_ok t qs"
  by (simp_all add: pieces_ok_def piece_ok_def buffer_of_def)

lemma pieces_ok_replace:
  assumes "pieces_ok t xs" "py_get xs i = Inr p" "split p off = Inr (a, b)"
  shows "pieces_ok t (xs[i := a])" and "pieces_ok t (xs[i := b])"
proof -
  from assms(2) have "p \<in> set xs"
    by (auto simp: py_get_def split: if_splits)
  with assms(1) have "piece_ok t p" by (simp add: pieces_ok_def)
  from split_ok [OF assms(3) this] have ab: "piece_ok t a" "piece_ok t b" by auto
  show "pieces_ok t (xs[i := a])"
    using assms(1) ab set_update_subset_insert [of xs i a]
    by (auto simp: pieces_ok_def)
  show "pieces_ok t (xs[i := b])"
    using assms(1) ab set_update_subset_insert [of xs i b]
    by (auto simp: pieces_ok_def)
qed

lemma pieces_ok_del_slice: "pieces_ok t xs \<Longrightarrow> pieces_ok t (del_slice xs a b)"
  using set_del_slice [of xs a b] by (auto simp: pieces_ok_def)

lemma pieces_ok_replace_twice:
  assumes "pieces_ok t xs" "py_get xs s = Inr p" "split p so = Inr (a, b)"
    "py_get (xs[s := a]) e = Inr q" "split q eo = Inr (c, d)"
  shows "pieces_ok t (xs[s := a, e := d])"
  using pieces_ok_replace(2) [OF pieces_ok_replace(1) [OF assms(1-3)] assms(4,5)] .

lemma delete_invariant:
  assumes "invariant t" "delete t position len = (r, t')"
  shows "invariant t'"
proof (cases "len \<le> 0")
  case True
  with assms show ?thesis by (simp add: delete_def)
next
  case False
  obtain s so where f1: "find_piece_at_position t position = (s, so)"
    by (cases "find_piece_at_position t position")
  obtain e eo where f2: "find_piece_at_position t (position + len) = (e, eo)"
    by (cases "find_piece_at_position t (position + len)")
  have ok: "pieces_ok t (pieces t)" using assms(1) by (simp add: invariant_pieces_ok)
  show ?thesis
    using assms(2) False f1 f2 ok
    by (auto simp: delete_def invariant_pieces_ok
        intro!: pieces_ok_del_slice
        intro: pieces_ok_replace pieces_ok_replace_twice
        split: sum.splits prod.splits if_splits)
qed

lemma get_text_pieces: "get_text t = text_of_pieces t (pieces t)"
  by (simp add: get_text_def text_of_pieces_def piece_text_def [abs_def])

lemma py_slice_in:
  assumes "0 \<le> a" "0 \<le> l" "a + l \<le> int (length xs)"
  shows "py_slice xs a (a + l) = take (nat l) (drop (nat a) xs)"
  using assms by (simp add: py_slice_def clamp_index_def Let_def min_def)

lemma piece_text_in:
  assumes "piece_ok t p"
  shows "piece_text t p = take (nat (plen p)) (drop (nat (start p)) (buffer_of t p))"
  using assms py_slice_in [of "start p" "plen p" "buffer_of t p"]
  by (simp add: piece_text_def piece_ok_def)

lemma length_piece_text:
  assumes "piece_ok t p"
  shows "length (piece_text t p) = nat (plen p)"
  using assms by (auto simp: piece_text_in piece_ok_def)

lemma length_text_of_pieces:
  "pieces_ok t qs \<Longrightarrow> int (length (text_of_pieces t qs)) = sum_list (map plen qs)"
proof (induction qs)
  case Nil
  show ?case by (simp add: text_of_pieces_def)
next
  case (Cons p qs)
  then have "piece_ok t p" "pieces_ok t qs" by (auto simp: pieces_ok_def)
  with Cons.IH show ?case
    by (simp add: text_of_pieces_def length_piece_text piece_ok_def)
qed

lemma piece_text_grow:
  assumes "piece_ok t p"
  shows "piece_text (t\<lparr>add_buffer := add_buffer t @ x\<rparr>) p = piece_text t p"
proof -
  let ?t = "t\<lparr>add_buffer := add_buffer t @ x\<rparr>"
  have ok: "piece_ok ?t p" using assms piece_ok_grow [of t p ?t x] by simp
  show ?thesis
  proof (cases "buffer_type p = ''original''")
    case True
    then show ?thesis by (simp add: piece_text_def buffer_of_def)
  next
    case False
    then have b: "buffer_of ?t p = buffer_of t p @ x" by (simp add: buffer_of_def)
    from assms have "int (nat (start p) + nat (plen p)) \<le> int (length (buffer_of t p))"
      by (simp add: piece_ok_def)
    then have "nat (start p) + nat (plen p) \<le> length (buffer_of t p)"
      by (simp only: of_nat_le_iff)
    then show ?thesis
      by (simp add: piece_text_in [OF ok] piece_text_in [OF assms] b)
  qed
qed

lemma text_of_pieces_grow:
  assumes "pieces_ok t qs"
  shows "text_of_pieces (t\<lparr>add_buffer := add_buffer t @ x\<rparr>) qs = text_of_pieces t qs"
proof -
  have "map (piece_text (t\<lparr>add_buffer := add_buffer t @ x\<rparr>)) qs = map (piece_text t) qs"
    using assms by (auto simp: pieces_ok_def piece_text_grow)
  then show ?thesis unfolding text_of_pieces_def by (rule arg_cong)
qed

lemma buffer_of_frame [simp]:
  "buffer_of (t\<lparr>pieces := xs\<rparr>) p = buffer_of t p"
  "buffer_of (update_markers t i d) p = buffer_of t p"
  by (simp_all add: buffer_of_def)

lemma text_of_pieces_frame [simp]:
  "text_of_pieces (t\<lparr>pieces := xs\<rparr>) qs = text_of_pieces t qs"
  "text_of_pieces (update_markers t i d) qs = text_of_pieces t qs"
  by (simp_all add: text_of_pieces_def piece_text_def [abs_def])

lemma find_from_pos:
  assumes "find_from i c qs pos = (j, off)" "c \<le> pos" "pos \<le> c + sum_list (map plen qs)"
  shows "i \<le> j \<and> j - i \<le> length qs \<and> pos - c = sum_list (map plen (take (j - i) qs)) + off"
  using assms
proof (induction qs arbitrary: i c)
  case Nil
  then show ?case by auto
next
  case (Cons p ps)
  show ?case
  proof (cases "c \<le> pos \<and> pos < c + plen p")
    case True
    with Cons.prems show ?thesis by auto
  next
    case False
    with Cons.prems have f: "find_from (Suc i) (c + plen p) ps pos = (j, off)" by simp
    from False Cons.prems have "c + plen p \<le> pos" "pos \<le> c + plen p + sum_list (map plen ps)"
      by auto
    from Cons.IH [OF f this]
    have ih: "Suc i \<le> j" "j - Suc i \<le> length ps"
      "pos - (c + plen p) = sum_list (map plen (take (j - Suc i) ps)) + off" by auto
    from ih(1) have "j - i = Suc (j - Suc i)" by simp
    with ih show ?thesis by auto
  qed
qed

lemma invariant_empty: "invariant empty_table"
  by (simp add: invariant_def empty_table_def)

lemma reachable_invariant: "reachable t \<Longrightarrow> invariant t"
  by (induction rule: reachable.induct)
    (auto intro: invariant_empty insert_invariant delete_invariant)

lemma reachable_snd_insert: "reachable t \<Longrightarrow> reachable (snd (insert t position s))"
  by (rule reachable.ins [where r = "fst (insert t position s)"]) simp_all

lemma reachable_snd_delete: "reachable t \<Longrightarrow> reachable (snd (delete t position len))"
  by (rule reachable.del [where r = "fst (delete t position len)"]) simp_all

text \<open>
  Claim C5: in every piece table reached from the empty table by inserts and deletes,
  the piece lengths add up to the length of \<open>get_text\<close>, no stored piece has length 0,
  and every piece's slice lies within the buffer it references.  \<open>reachable\<close> admits
  every call, so the sequences of valid calls the claim speaks of are covered.
\<close>

theorem reachable_pieces_invariant:
  assumes "reachable t"
  shows "sum_list (map plen (pieces t)) = int (length (get_text t))
       \<and> (\<forall>p \<in> set (pieces t). plen p \<noteq> 0)
       \<and> (\<forall>p \<in> set (pieces t).
             0 \<le> start p \<and> start p + plen p \<le> int (length (buffer_of t p)))"
proof -
  from assms have inv: "invariant t" by (rule reachable_invariant)
  then have "pieces_ok t (pieces t)" by (simp add: invariant_pieces_ok)
  then have "int (length (get_text t)) = sum_list (map plen (pieces t))"
    by (simp add: get_text_pieces length_text_of_pieces)
  with inv show ?thesis by (auto simp: invariant_def piece_ok_def)
qed

theorem reachable_pieces_invariant_witness:
  "reachable (snd (delete (snd (insert (snd (insert empty_table 0 ''abcd'')) 2 ''XY'')) 1 2))
   \<and> fst (delete (snd (insert (snd (insert empty_table 0 ''abcd'')) 2 ''XY'')) 1 2) = None
   \<and> get_text (snd (delete (snd (insert (snd (insert empty_table 0 ''abcd'')) 2 ''XY'')) 1 2))
       = ''aYcd''
   \<and> sum_list (map plen
         (pieces (snd (delete (snd (insert (snd (insert empty_table 0 ''abcd'')) 2 ''XY'')) 1 2))))
       = 4"
proof -
  let ?t = "snd (delete (snd (insert (snd (insert empty_table 0 ''abcd'')) 2 ''XY'')) 1 2)"
  have r: "reachable ?t"
    by (intro reachable_snd_delete reachable_snd_insert reachable.init)
  have e: "delete (snd (insert (snd (insert empty_table 0 ''abcd'')) 2 ''XY'')) 1 2
      = (None, \<lparr>original_buffer = [], add_buffer = ''abcdXY'',
           pieces = [\<lparr>buffer_type = ''add'', start = 0, plen = 1, line_start = False\<rparr>,
                     \<lparr>buffer_type = ''add'', start = 5, plen = 1, line_start = False\<rparr>,
                     \<lparr>buffer_type = ''add'', start = 2, plen = 2, line_start = False\<rparr>],
           styles = [], lines = []\<rparr>)"
    by (simp add: insert_def delete_def empty_table_def find_piece_at_position_def
        update_markers_def list_insert_def del_slice_def py_get_def split_def)
  have g: "get_text ?t = ''aYcd''"
    by (simp add: e get_text_def buffer_of_def py_slice_def clamp_index_def)
  from reachable_pieces_invariant [OF r] g e r show ?thesis by simp
qed


subsection \<open>Deleting up to the end of the document\<close>

text \<open>
  Claim C3: \<open>delete(pos, len)\<close> fails exactly when \<open>pos + len\<close> exceeds the document
  length, and for \<open>pos \<ge> 0\<close> and \<open>pos + len \<le> length\<close>, the end of the document
  included, it removes exactly those characters.  The code does not: on the table
  holding \<open>"ab"\<close> (the empty table after \<open>insert(0, "ab")\<close>) the call \<open>delete(0, 2)\<close>
  looks up position 2, gets \<open>(len(pieces), 0)\<close>, and \<open>self.pieces[end_piece_index]\<close>
  raises \<open>IndexError\<close>; the table still holds \<open>"ab"\<close>.
\<close>

theorem delete_to_end_raises:
  "delete (snd (insert empty_table 0 ''ab'')) 0 2
     = (Some IndexError, snd (insert empty_table 0 ''ab''))
   \<and> get_text (snd (insert empty_table 0 ''ab'')) = ''ab''"
  by (simp add: insert_def delete_def empty_table_def find_piece_at_position_def
      update_markers_def list_insert_def py_get_def get_text_def buffer_of_def
      py_slice_def clamp_index_def)


subsection \<open>Insert followed by delete\<close>

text \<open>
  Claim C8: \<open>insert(p, t)\<close> followed by \<open>delete(p, |t|)\<close> gives back the original text.
  The inserted text always ends on a piece boundary, which is where \<open>delete\<close> raises:
  on the table holding \<open>"ab"\<close>, \<open>insert(1, "X")\<close> gives \<open>"aXb"\<close>, and \<open>delete(1, 1)\<close>
  then finds its end position at offset 0 of the third piece, calls \<open>split(0)\<close> and
  raises \<open>ValueError\<close>; the text is still \<open>"aXb"\<close>.
\<close>

theorem insert_then_delete_raises:
  "get_text (snd (insert empty_table 0 ''ab'')) = ''ab''
   \<and> fst (insert (snd (insert empty_table 0 ''ab'')) 1 ''X'') = None
   \<and> get_text (snd (insert (snd (insert empty_table 0 ''ab'')) 1 ''X'')) = ''aXb''
   \<and> fst (delete (snd (insert (snd (insert empty_table 0 ''ab'')) 1 ''X'')) 1 1)
       = Some ValueError
   \<and> get_text (snd (delete (snd (insert (snd (insert empty_table 0 ''ab'')) 1 ''X'')) 1 1))
       = ''aXb''"
  by (simp add: insert_def delete_def empty_table_def find_piece_at_position_def
      update_markers_def list_insert_def del_slice_def py_get_def split_def get_text_def
      buffer_of_def py_slice_def clamp_index_def)


subsection \<open>Markers after an insert\<close>

text \<open>
  \<open>FormattingManager.update_positions\<close> moves exactly the anchors of the given piece at or
  after the given offset.
\<close>

lemma update_positions_styles:
  "fm_style_list (update_positions fm pi off d) =
     map (\<lambda>s. if pieceIndex s = pi \<and> off \<le> offsetInPiece s
               then s\<lparr>offsetInPiece := offsetInPiece s + d\<rparr> else s) (fm_style_list fm)"
  by (simp add: update_positions_def)

lemma update_positions_lines:
  "fm_line_list (update_positions fm pi off d) =
     map (\<lambda>l. if lm_pieceIndex l = pi \<and> off \<le> lm_offsetInPiece l
               then l\<lparr>lm_offsetInPiece := lm_offsetInPiece l + d\<rparr> else l) (fm_line_list fm)"
  by (simp add: update_positions_def)

text \<open>
  Claim C7: after \<open>insert(pos, text)\<close> into piece \<open>i\<close> at offset \<open>o\<close>, the style and line
  anchors of piece \<open>i\<close> at offset \<open>o\<close> or later move by \<open>|text|\<close> and all others stay.
  \<open>PieceTable.insert\<close> calls \<open>_update_markers\<close>, not \<open>update_positions\<close>, and that moves
  the anchors of the pieces after \<open>i\<close> instead.  In a table of the two pieces \<open>"ab"\<close> and
  \<open>"cd"\<close>, \<open>insert(1, "X")\<close> goes into piece 0 at offset 1: the style and the line anchored
  at (0, 1) stay where they are, and the ones anchored in piece 1 move by 1.
\<close>

theorem insert_shifts_other_pieces_markers:
  "insert
     \<lparr>original_buffer = [], add_buffer = ''abcd'',
      pieces = [\<lparr>buffer_type = ''add'', start = 0, plen = 2, line_start = False\<rparr>,
                \<lparr>buffer_type = ''add'', start = 2, plen = 2, line_start = False\<rparr>],
      styles = [\<lparr>s_piece_index = 0, s_start_offset = 1, s_length = 1,
                  s_attributes = [(''bold'', JBool True)]\<rparr>,
                \<lparr>s_piece_index = 1, s_start_offset = 0, s_length = 2,
                  s_attributes = [(''italic'', JBool True)]\<rparr>],
      lines = [\<lparr>l_piece_index = 0, l_offset = 1, l_type = ''bullet'', l_properties = []\<rparr>,
               \<lparr>l_piece_index = 1, l_offset = 1, l_type = ''heading'', l_properties = []\<rparr>]\<rparr>
     1 ''X''
   = (None,
      \<lparr>original_buffer = [], add_buffer = ''abcdX'',
       pieces = [\<lparr>buffer_type = ''add'', start = 0, plen = 1, line_start = False\<rparr>,
                 \<lparr>buffer_type = ''add'', start = 4, plen = 1, line_start = False\<rparr>,
                 \<lparr>buffer_type = ''add'', start = 1, plen = 1, line_start = False\<rparr>,
                 \<lparr>buffer_type = ''add'', start = 2, plen = 2, line_start = False\<rparr>],
       styles = [\<lparr>s_piece_index = 0, s_start_offset = 1, s_length = 1,
                   s_attributes = [(''bold'', JBool True)]\<rparr>,
                 \<lparr>s_piece_index = 1, s_start_offset = 1, s_length = 2,
                   s_attributes = [(''italic'', JBool True)]\<rparr>],
       lines = [\<lparr>l_piece_index = 0, l_offset = 1, l_type = ''bullet'', l_properties = []\<rparr>,
                \<lparr>l_piece_index = 1, l_offset = 2, l_type = ''heading'',
                  l_properties = []\<rparr>]\<rparr>)"
  by (simp add: insert_def find_piece_at_position_def update_markers_def list_insert_def
      py_get_def split_def)

end
